theory Spec2Isabelle
  imports Main "HOL-Library.Multiset" "HOL-Library.Signed_Division"
begin

section \<open>The container of pqueue.go\<close>

text \<open>
  The Go package keeps a generic container \<^verbatim>\<open>PQueue[T]\<close>: a backing slice, a
  comparator, a type tag computed once by reflection, and the number of live elements.
  The element type \<^verbatim>\<open>T\<close> is the type variable \<open>'a\<close>. Indices and sizes are Go
  \<^verbatim>\<open>int\<close>s and can take the value \<open>-1\<close> in several loops, so they are
  modelled as \<open>int\<close>; a slice is a list, read at index \<open>i\<close> with \<open>d ! nat i\<close>.
\<close>

datatype DataType =
  IntegerType | FloatType | StringType | SliceType | ArrayType | StructType
  | MapType | PointerType | InterfaceType | ChannelType | FuncType | GenericType

datatype SortStrategy =
  AutoStrategy | RadixStrategy | CountingStrategy | InsertionStrategy
  | TimsortStrategy | IntrosortStrategy | MergeStrategy | QuickStrategy

record 'a PQueue =
  pq_data :: "'a list"
  pq_less :: "'a \<Rightarrow> 'a \<Rightarrow> bool"
  pq_dataType :: DataType
  pq_size :: int

text \<open>
  What the package reads of \<^verbatim>\<open>T\<close> through the runtime: the zero value
  (\<^verbatim>\<open>var zero T\<close>, the cells of \<^verbatim>\<open>make([]T, n)\<close>), the kind
  \<^verbatim>\<open>reflect.TypeOf(x).Kind()\<close> of a value, the number
  \<^verbatim>\<open>reflect.ValueOf(x).Int()\<close> (which panics unless the kind is a signed integer
  kind) and the conversion \<^verbatim>\<open>reflect.ValueOf(n).Interface().(T)\<close> of a Go
  \<^verbatim>\<open>int\<close> back to \<^verbatim>\<open>T\<close> (which panics unless \<^verbatim>\<open>T\<close> is
  \<^verbatim>\<open>int\<close> or an interface that \<^verbatim>\<open>int\<close> implements; \<open>None\<close> is the panic).
  The kind \<open>KInvalid\<close> stands for a nil interface value, whose
  \<^verbatim>\<open>reflect.TypeOf\<close> is nil.
\<close>

datatype Kind =
  KInvalid | KBool | KInt | KInt8 | KInt16 | KInt32 | KInt64
  | KUint | KUint8 | KUint16 | KUint32 | KUint64 | KUintptr
  | KFloat32 | KFloat64 | KComplex64 | KComplex128
  | KArray | KChan | KFunc | KInterface | KMap | KPointer | KSlice | KString
  | KStruct | KUnsafePointer

record 'a GoType =
  zeroT :: 'a
  kindOf :: "'a \<Rightarrow> Kind"
  intOf :: "'a \<Rightarrow> int"
  ofInt :: "int \<Rightarrow> 'a option"

datatype error =
  EmptyQueue
  | PanicNilType
  | PanicValueInt
  | PanicTypeAssertion
  | PanicIndex
  | PanicMakeLen

text \<open>The live prefix \<^verbatim>\<open>pq.data[:pq.size]\<close>.\<close>

definition live :: "'a PQueue \<Rightarrow> 'a list" where
  "live q = take (nat (pq_size q)) (pq_data q)"

text \<open>
  The invariant of every queue the package builds: the size is between 0 and the
  length of the backing slice.
\<close>

definition well_formed :: "'a PQueue \<Rightarrow> bool" where
  "well_formed q = (0 \<le> pq_size q \<and> pq_size q \<le> int (length (pq_data q)))"

subsection \<open>Size, IsEmpty, Push, Pop, Peek, ToSlice\<close>

text \<open>
  Go's builtin \<^verbatim>\<open>copy(dst, src)\<close>: the first \<open>min (len dst) (len src)\<close> cells
  of \<open>dst\<close> are overwritten; the result is \<open>dst\<close> after the call.
\<close>

definition copy_slice :: "'a list \<Rightarrow> 'a list \<Rightarrow> 'a list" where
  "copy_slice dst src = take (length dst) src @ drop (length src) dst"

definition Size :: "'a PQueue \<Rightarrow> int" where
  "Size q = pq_size q"

definition IsEmpty :: "'a PQueue \<Rightarrow> bool" where
  "IsEmpty q = (pq_size q = 0)"

text \<open>
  \<^verbatim>\<open>Push\<close>: when the slice is full, a slice of twice the length (1 for an empty
  slice) is made and the live prefix copied into it.
\<close>

definition Push :: "'a GoType \<Rightarrow> 'a PQueue \<Rightarrow> 'a \<Rightarrow> 'a PQueue" where
  "Push ty q item =
     (let d = (if pq_size q \<ge> int (length (pq_data q)) then
                 (let newSize = (if length (pq_data q) * 2 = 0 then 1 else length (pq_data q) * 2);
                      newData = replicate newSize (zeroT ty)
                  in copy_slice newData (take (nat (pq_size q)) (pq_data q)))
               else pq_data q)
      in q\<lparr>pq_data := d[nat (pq_size q) := item], pq_size := pq_size q + 1\<rparr>)"

text \<open>
  The scan of \<^verbatim>\<open>Pop\<close>:
  \<^verbatim>\<open>for i := 1; i < pq.size; i++ { if pq.less(pq.data[i], pq.data[minIdx]) { minIdx = i } }\<close>
\<close>

function Pop_scan :: "('a \<Rightarrow> 'a \<Rightarrow> bool) \<Rightarrow> 'a list \<Rightarrow> int \<Rightarrow> int \<Rightarrow> int \<Rightarrow> int" where
  "Pop_scan lt d n i minIdx =
     (if i < n then Pop_scan lt d n (i + 1) (if lt (d ! nat i) (d ! nat minIdx) then i else minIdx)
      else minIdx)"
  by pat_completeness auto
termination
  by (relation "measure (\<lambda>(lt, d, n, i, minIdx). nat (n - i))") auto

declare Pop_scan.simps [simp del]

text \<open>
  \<^verbatim>\<open>Pop\<close> returns the pair \<^verbatim>\<open>(T, error)\<close> of the Go function (\<open>None\<close> is
  the nil error) together with the queue after the call.
\<close>

definition Pop :: "'a GoType \<Rightarrow> 'a PQueue \<Rightarrow> ('a \<times> error option) \<times> 'a PQueue" where
  "Pop ty q =
     (if pq_size q = 0 then ((zeroT ty, Some EmptyQueue), q)
      else
        (let minIdx = Pop_scan (pq_less q) (pq_data q) (pq_size q) 1 0;
             result = pq_data q ! nat minIdx
         in ((result, None),
             q\<lparr>pq_data := (pq_data q)[nat minIdx := pq_data q ! nat (pq_size q - 1)],
               pq_size := pq_size q - 1\<rparr>)))"

function Peek_scan :: "('a \<Rightarrow> 'a \<Rightarrow> bool) \<Rightarrow> 'a list \<Rightarrow> int \<Rightarrow> int \<Rightarrow> int \<Rightarrow> int" where
  "Peek_scan lt d n i minIdx =
     (if i < n then Peek_scan lt d n (i + 1) (if lt (d ! nat i) (d ! nat minIdx) then i else minIdx)
      else minIdx)"
  by pat_completeness auto
termination
  by (relation "measure (\<lambda>(lt, d, n, i, minIdx). nat (n - i))") auto

declare Peek_scan.simps [simp del]

definition Peek :: "'a GoType \<Rightarrow> 'a PQueue \<Rightarrow> ('a \<times> error option) \<times> 'a PQueue" where
  "Peek ty q =
     (if pq_size q = 0 then ((zeroT ty, Some EmptyQueue), q)
      else
        (let minIdx = Peek_scan (pq_less q) (pq_data q) (pq_size q) 1 0
         in ((pq_data q ! nat minIdx, None), q)))"

text \<open>\<^verbatim>\<open>ToSlice\<close>: a new slice of length \<^verbatim>\<open>pq.size\<close>, then the copy.\<close>

definition ToSlice :: "'a GoType \<Rightarrow> 'a PQueue \<Rightarrow> 'a list" where
  "ToSlice ty q =
     (let result = replicate (nat (pq_size q)) (zeroT ty)
      in copy_slice result (take (nat (pq_size q)) (pq_data q)))"

text \<open>
  The comparator contract of the specification: a strict weak order (irreflexive,
  transitive, and with a transitive incomparability relation).
\<close>

definition strict_weak_order :: "('a \<Rightarrow> 'a \<Rightarrow> bool) \<Rightarrow> bool" where
  "strict_weak_order lt =
     ((\<forall>x. \<not> lt x x)
      \<and> (\<forall>x y z. lt x y \<longrightarrow> lt y z \<longrightarrow> lt x z)
      \<and> (\<forall>x y z. \<not> lt x y \<longrightarrow> \<not> lt y x \<longrightarrow> \<not> lt y z \<longrightarrow> \<not> lt z y
             \<longrightarrow> \<not> lt x z \<and> \<not> lt z x))"

text \<open>The element type \<^verbatim>\<open>int\<close>, as the runtime shows it.\<close>

definition intType :: "int GoType" where
  "intType = \<lparr>zeroT = 0, kindOf = (\<lambda>x. KInt), intOf = (\<lambda>x. x), ofInt = Some\<rparr>"

definition NewInts_less :: "int \<Rightarrow> int \<Rightarrow> bool" where
  "NewInts_less a b = (a < b)"


section \<open>The sorting algorithms of algorithms.go\<close>

text \<open>
  The sorting methods read \<^verbatim>\<open>pq.less\<close> and \<^verbatim>\<open>pq.size\<close> and write
  \<^verbatim>\<open>pq.data\<close> only, so each loop and each recursive method is a function of the
  comparator and the slice that returns the slice after the call; the methods
  without parameters put the result back into the queue. Go's \<^verbatim>\<open>/\<close> on
  \<^verbatim>\<open>int\<close> truncates towards zero: it is \<open>sdiv\<close>, and \<^verbatim>\<open>%\<close> is \<open>smod\<close>.
\<close>

text \<open>\<^verbatim>\<open>data[i], data[j] = data[j], data[i]\<close>\<close>

definition swap :: "'a list \<Rightarrow> int \<Rightarrow> int \<Rightarrow> 'a list" where
  "swap d i j = d[nat i := d ! nat j, nat j := d ! nat i]"

subsection \<open>insertionSort\<close>

text \<open>
  The inner loop
  \<^verbatim>\<open>for j >= 0 && pq.less(key, pq.data[j]) { pq.data[j+1] = pq.data[j]; j-- }\<close>
  returns the slice and \<open>j\<close>.
\<close>

function insertionSort_shift ::
  "('a \<Rightarrow> 'a \<Rightarrow> bool) \<Rightarrow> 'a list \<Rightarrow> 'a \<Rightarrow> int \<Rightarrow> 'a list \<times> int" where
  "insertionSort_shift lt d key j =
     (if j \<ge> 0 \<and> lt key (d ! nat j)
      then insertionSort_shift lt (d[nat (j + 1) := d ! nat j]) key (j - 1)
      else (d, j))"
  by pat_completeness auto
termination
  by (relation "measure (\<lambda>(lt, d, key, j). nat (j + 1))") auto

declare insertionSort_shift.simps [simp del]

function insertionSort_loop ::
  "('a \<Rightarrow> 'a \<Rightarrow> bool) \<Rightarrow> 'a list \<Rightarrow> int \<Rightarrow> int \<Rightarrow> 'a list" where
  "insertionSort_loop lt d n i =
     (if i < n then
        (let key = d ! nat i;
             r = insertionSort_shift lt d key (i - 1)
         in insertionSort_loop lt ((fst r)[nat (snd r + 1) := key]) n (i + 1))
      else d)"
  by pat_completeness auto
termination
  by (relation "measure (\<lambda>(lt, d, n, i). nat (n - i))") auto

declare insertionSort_loop.simps [simp del]

definition insertionSort :: "'a PQueue \<Rightarrow> 'a PQueue" where
  "insertionSort q = q\<lparr>pq_data := insertionSort_loop (pq_less q) (pq_data q) (pq_size q) 1\<rparr>"

subsection \<open>quickSort\<close>

text \<open>
  The loop of \<^verbatim>\<open>partition\<close> over \<open>j\<close>, with the running \<open>i\<close>; it returns the slice
  and \<open>i\<close>.
\<close>

function partition_loop ::
  "('a \<Rightarrow> 'a \<Rightarrow> bool) \<Rightarrow> 'a list \<Rightarrow> 'a \<Rightarrow> int \<Rightarrow> int \<Rightarrow> int \<Rightarrow> 'a list \<times> int" where
  "partition_loop lt d pivot high i j =
     (if j < high then
        (if lt (d ! nat j) pivot \<or> (\<not> lt pivot (d ! nat j) \<and> \<not> lt (d ! nat j) pivot)
         then partition_loop lt (swap d (i + 1) j) pivot high (i + 1) (j + 1)
         else partition_loop lt d pivot high i (j + 1))
      else (d, i))"
  by pat_completeness auto
termination
  by (relation "measure (\<lambda>(lt, d, pivot, high, i, j). nat (high - j))") auto

declare partition_loop.simps [simp del]

definition partition :: "('a \<Rightarrow> 'a \<Rightarrow> bool) \<Rightarrow> 'a list \<Rightarrow> int \<Rightarrow> int \<Rightarrow> 'a list \<times> int" where
  "partition lt d low high =
     (let pivot = d ! nat high;
          r = partition_loop lt d pivot high (low - 1) low
      in (swap (fst r) (snd r + 1) high, snd r + 1))"

lemma partition_loop_bounds:
  "j \<le> high \<Longrightarrow>
   i \<le> snd (partition_loop lt d pivot high i j)
   \<and> snd (partition_loop lt d pivot high i j) \<le> i + (high - j)"
proof (induction lt d pivot high i j rule: partition_loop.induct)
  case (1 lt d pivot high i j)
  show ?case
  proof (cases "j < high")
    case False
    then have "partition_loop lt d pivot high i j = (d, i)"
      by (subst partition_loop.simps) simp
    then show ?thesis using "1.prems" False by simp
  next
    case True
    show ?thesis
    proof (cases "lt (d ! nat j) pivot \<or> (\<not> lt pivot (d ! nat j) \<and> \<not> lt (d ! nat j) pivot)")
      case c: True
      have "i + 1 \<le> snd (partition_loop lt (swap d (i + 1) j) pivot high (i + 1) (j + 1))
        \<and> snd (partition_loop lt (swap d (i + 1) j) pivot high (i + 1) (j + 1))
            \<le> i + 1 + (high - (j + 1))"
        using "1.IH"(1)[OF True c] True by simp
      moreover have "partition_loop lt d pivot high i j
          = partition_loop lt (swap d (i + 1) j) pivot high (i + 1) (j + 1)"
        using True c by (subst partition_loop.simps) auto
      ultimately show ?thesis by simp
    next
      case c: False
      have "i \<le> snd (partition_loop lt d pivot high i (j + 1))
        \<and> snd (partition_loop lt d pivot high i (j + 1)) \<le> i + (high - (j + 1))"
        using "1.IH"(2)[OF True c] True by simp
      moreover have "partition_loop lt d pivot high i j
          = partition_loop lt d pivot high i (j + 1)"
        using True c by (subst partition_loop.simps) auto
      ultimately show ?thesis by simp
    qed
  qed
qed

lemma partition_bounds:
  "low \<le> high \<Longrightarrow> low \<le> snd (partition lt d low high) \<and> snd (partition lt d low high) \<le> high"
  using partition_loop_bounds[of low high "low - 1" lt d "d ! nat high"]
  by (simp add: partition_def Let_def)

function quickSortRange :: "('a \<Rightarrow> 'a \<Rightarrow> bool) \<Rightarrow> 'a list \<Rightarrow> int \<Rightarrow> int \<Rightarrow> 'a list" where
  "quickSortRange lt d low high =
     (if low < high then
        (let r = partition lt d low high;
             d1 = quickSortRange lt (fst r) low (snd r - 1)
         in quickSortRange lt d1 (snd r + 1) high)
      else d)"
  by pat_completeness auto
termination
proof (relation "measure (\<lambda>(lt, d, low, high). nat (high - low))")
  show "wf (measure (\<lambda>(lt, d, low, high). nat (high - low)))" by simp
next
  fix lt :: "'a \<Rightarrow> 'a \<Rightarrow> bool" and d :: "'a list" and low high :: int and x
  assume "low < high" and "x = partition lt d low high"
  then show "((lt, fst x, low, snd x - 1), lt, d, low, high)
      \<in> measure (\<lambda>(lt, d, low, high). nat (high - low))"
    using partition_bounds[of low high lt d] by simp
next
  fix lt :: "'a \<Rightarrow> 'a \<Rightarrow> bool" and d :: "'a list" and low high :: int and x xa
  assume "low < high" and "x = partition lt d low high"
  then show "((lt, xa, snd x + 1, high), lt, d, low, high)
      \<in> measure (\<lambda>(lt, d, low, high). nat (high - low))"
    using partition_bounds[of low high lt d] by simp
qed

declare quickSortRange.simps [simp del]

definition quickSort :: "'a PQueue \<Rightarrow> 'a PQueue" where
  "quickSort q = q\<lparr>pq_data := quickSortRange (pq_less q) (pq_data q) 0 (pq_size q - 1)\<rparr>"

subsection \<open>mergeSort\<close>

lemma sdiv_nonneg_eq_div: "0 \<le> a \<Longrightarrow> 0 < b \<Longrightarrow> (a::int) sdiv b = a div b"
  by (simp add: signed_divide_int_def sgn_if)

text \<open>
  \<^verbatim>\<open>merge\<close> has four loops: the copy into \<^verbatim>\<open>temp\<close>, the merge of the two
  halves, and the two loops that copy what remains. \<^verbatim>\<open>temp\<close> is shared by all
  calls, so it is part of the state.
\<close>

function merge_copy :: "'a list \<Rightarrow> 'a list \<Rightarrow> int \<Rightarrow> int \<Rightarrow> 'a list" where
  "merge_copy d temp right i =
     (if i \<le> right then merge_copy d (temp[nat i := d ! nat i]) right (i + 1) else temp)"
  by pat_completeness auto
termination
  by (relation "measure (\<lambda>(d, temp, right, i). nat (right + 1 - i))") auto

declare merge_copy.simps [simp del]

function merge_main ::
  "('a \<Rightarrow> 'a \<Rightarrow> bool) \<Rightarrow> 'a list \<Rightarrow> 'a list \<Rightarrow> int \<Rightarrow> int \<Rightarrow> int \<Rightarrow> int \<Rightarrow> int
     \<Rightarrow> 'a list \<times> int \<times> int \<times> int" where
  "merge_main lt d temp mid right i j k =
     (if i \<le> mid \<and> j \<le> right then
        (if lt (temp ! nat i) (temp ! nat j)
         then merge_main lt (d[nat k := temp ! nat i]) temp mid right (i + 1) j (k + 1)
         else if lt (temp ! nat j) (temp ! nat i)
         then merge_main lt (d[nat k := temp ! nat j]) temp mid right i (j + 1) (k + 1)
         else merge_main lt (d[nat k := temp ! nat i]) temp mid right (i + 1) j (k + 1))
      else (d, i, j, k))"
  by pat_completeness auto
termination
  by (relation "measure (\<lambda>(lt, d, temp, mid, right, i, j, k). nat (mid + 1 - i) + nat (right + 1 - j))")
    auto

declare merge_main.simps [simp del]

function merge_left :: "'a list \<Rightarrow> 'a list \<Rightarrow> int \<Rightarrow> int \<Rightarrow> int \<Rightarrow> 'a list \<times> int" where
  "merge_left d temp mid i k =
     (if i \<le> mid then merge_left (d[nat k := temp ! nat i]) temp mid (i + 1) (k + 1)
      else (d, k))"
  by pat_completeness auto
termination
  by (relation "measure (\<lambda>(d, temp, mid, i, k). nat (mid + 1 - i))") auto

declare merge_left.simps [simp del]

function merge_right :: "'a list \<Rightarrow> 'a list \<Rightarrow> int \<Rightarrow> int \<Rightarrow> int \<Rightarrow> 'a list \<times> int" where
  "merge_right d temp right j k =
     (if j \<le> right then merge_right (d[nat k := temp ! nat j]) temp right (j + 1) (k + 1)
      else (d, k))"
  by pat_completeness auto
termination
  by (relation "measure (\<lambda>(d, temp, right, j, k). nat (right + 1 - j))") auto

declare merge_right.simps [simp del]

text \<open>\<^verbatim>\<open>merge\<close> returns \<^verbatim>\<open>pq.data\<close> and \<^verbatim>\<open>temp\<close> after the call.\<close>

definition merge ::
  "('a \<Rightarrow> 'a \<Rightarrow> bool) \<Rightarrow> 'a list \<Rightarrow> 'a list \<Rightarrow> int \<Rightarrow> int \<Rightarrow> int \<Rightarrow> 'a list \<times> 'a list" where
  "merge lt d temp left mid right =
     (let temp1 = merge_copy d temp right left;
          m = merge_main lt d temp1 mid right left (mid + 1) left;
          l = merge_left (fst m) temp1 mid (fst (snd m)) (snd (snd (snd m)));
          r = merge_right (fst l) temp1 right (fst (snd (snd m))) (snd l)
      in (fst r, temp1))"

function mergeSortRange ::
  "('a \<Rightarrow> 'a \<Rightarrow> bool) \<Rightarrow> 'a list \<Rightarrow> 'a list \<Rightarrow> int \<Rightarrow> int \<Rightarrow> 'a list \<times> 'a list" where
  "mergeSortRange lt d temp left right =
     (if left < right then
        (let mid = left + (right - left) sdiv 2;
             a = mergeSortRange lt d temp left mid;
             b = mergeSortRange lt (fst a) (snd a) (mid + 1) right
         in merge lt (fst b) (snd b) left mid right)
      else (d, temp))"
  by pat_completeness auto
termination
  by (relation "measure (\<lambda>(lt, d, temp, left, right). nat (right - left))")
    (auto simp: sdiv_nonneg_eq_div)

declare mergeSortRange.simps [simp del]

definition mergeSort :: "'a GoType \<Rightarrow> 'a PQueue \<Rightarrow> 'a PQueue" where
  "mergeSort ty q =
     (if pq_size q \<le> 1 then q
      else
        (let temp = replicate (nat (pq_size q)) (zeroT ty)
         in q\<lparr>pq_data := fst (mergeSortRange (pq_less q) (pq_data q) temp 0 (pq_size q - 1))\<rparr>))"

subsection \<open>introsort\<close>

function insertionSortRange_shift ::
  "('a \<Rightarrow> 'a \<Rightarrow> bool) \<Rightarrow> 'a list \<Rightarrow> 'a \<Rightarrow> int \<Rightarrow> int \<Rightarrow> 'a list \<times> int" where
  "insertionSortRange_shift lt d key low j =
     (if j \<ge> low \<and> lt key (d ! nat j)
      then insertionSortRange_shift lt (d[nat (j + 1) := d ! nat j]) key low (j - 1)
      else (d, j))"
  by pat_completeness auto
termination
  by (relation "measure (\<lambda>(lt, d, key, low, j). nat (j + 1 - low))") auto

declare insertionSortRange_shift.simps [simp del]

function insertionSortRange_loop ::
  "('a \<Rightarrow> 'a \<Rightarrow> bool) \<Rightarrow> 'a list \<Rightarrow> int \<Rightarrow> int \<Rightarrow> int \<Rightarrow> 'a list" where
  "insertionSortRange_loop lt d low high i =
     (if i \<le> high then
        (let key = d ! nat i;
             r = insertionSortRange_shift lt d key low (i - 1)
         in insertionSortRange_loop lt ((fst r)[nat (snd r + 1) := key]) low high (i + 1))
      else d)"
  by pat_completeness auto
termination
  by (relation "measure (\<lambda>(lt, d, low, high, i). nat (high + 1 - i))") auto

declare insertionSortRange_loop.simps [simp del]

definition insertionSortRange :: "('a \<Rightarrow> 'a \<Rightarrow> bool) \<Rightarrow> 'a list \<Rightarrow> int \<Rightarrow> int \<Rightarrow> 'a list" where
  "insertionSortRange lt d low high = insertionSortRange_loop lt d low high (low + 1)"

text \<open>
  \<^verbatim>\<open>heapify\<close> is called with \<open>base \<le> root\<close> only. Below \<open>base\<close> the children lie
  before the root and the Go code would walk to negative indices and panic; the
  model returns the slice there, which keeps the function total.
\<close>

function heapify :: "('a \<Rightarrow> 'a \<Rightarrow> bool) \<Rightarrow> 'a list \<Rightarrow> int \<Rightarrow> int \<Rightarrow> int \<Rightarrow> 'a list" where
  "heapify lt d base sz root =
     (if root < base then d
      else
        (let left = 2 * (root - base) + 1 + base;
             right = 2 * (root - base) + 2 + base;
             largest1 = (if left < base + sz \<and> lt (d ! nat root) (d ! nat left) then left else root);
             largest = (if right < base + sz \<and> lt (d ! nat largest1) (d ! nat right)
                        then right else largest1)
         in if largest \<noteq> root then heapify lt (swap d root largest) base sz largest else d))"
  by pat_completeness auto
termination
  by (relation "measure (\<lambda>(lt, d, base, sz, root). nat (base + sz - root))")
    (auto split: if_splits)

declare heapify.simps [simp del]

function heapSortRange_build ::
  "('a \<Rightarrow> 'a \<Rightarrow> bool) \<Rightarrow> 'a list \<Rightarrow> int \<Rightarrow> int \<Rightarrow> int \<Rightarrow> 'a list" where
  "heapSortRange_build lt d low sz i =
     (if i \<ge> 0 then heapSortRange_build lt (heapify lt d low sz (low + i)) low sz (i - 1)
      else d)"
  by pat_completeness auto
termination
  by (relation "measure (\<lambda>(lt, d, low, sz, i). nat (i + 1))") auto

declare heapSortRange_build.simps [simp del]

function heapSortRange_extract ::
  "('a \<Rightarrow> 'a \<Rightarrow> bool) \<Rightarrow> 'a list \<Rightarrow> int \<Rightarrow> int \<Rightarrow> 'a list" where
  "heapSortRange_extract lt d low i =
     (if i > 0
      then heapSortRange_extract lt (heapify lt (swap d low (low + i)) low i low) low (i - 1)
      else d)"
  by pat_completeness auto
termination
  by (relation "measure (\<lambda>(lt, d, low, i). nat i)") auto

declare heapSortRange_extract.simps [simp del]

definition heapSortRange :: "('a \<Rightarrow> 'a \<Rightarrow> bool) \<Rightarrow> 'a list \<Rightarrow> int \<Rightarrow> int \<Rightarrow> 'a list" where
  "heapSortRange lt d low high =
     (let sz = high - low + 1;
          d1 = heapSortRange_build lt d low sz (sz sdiv 2 - 1)
      in heapSortRange_extract lt d1 low (sz - 1))"

function introsortRange ::
  "('a \<Rightarrow> 'a \<Rightarrow> bool) \<Rightarrow> 'a list \<Rightarrow> int \<Rightarrow> int \<Rightarrow> int \<Rightarrow> 'a list" where
  "introsortRange lt d low high depth =
     (if high - low + 1 \<le> 16 then insertionSortRange lt d low high
      else if depth = 0 then heapSortRange lt d low high
      else
        (let r = partition lt d low high;
             d1 = introsortRange lt (fst r) low (snd r - 1) (depth - 1)
         in introsortRange lt d1 (snd r + 1) high (depth - 1)))"
  by pat_completeness auto
termination
proof (relation "measure (\<lambda>(lt, d, low, high, depth). nat (high - low + 1))")
  show "wf (measure (\<lambda>(lt, d, low, high, depth). nat (high - low + 1)))" by simp
next
  fix lt :: "'a \<Rightarrow> 'a \<Rightarrow> bool" and d :: "'a list" and low high depth :: int and x
  assume "\<not> high - low + 1 \<le> 16" and "x = partition lt d low high"
  then show "((lt, fst x, low, snd x - 1, depth - 1), lt, d, low, high, depth)
      \<in> measure (\<lambda>(lt, d, low, high, depth). nat (high - low + 1))"
    using partition_bounds[of low high lt d] by simp
next
  fix lt :: "'a \<Rightarrow> 'a \<Rightarrow> bool" and d :: "'a list" and low high depth :: int and x xa
  assume "\<not> high - low + 1 \<le> 16" and "x = partition lt d low high"
  then show "((lt, xa, snd x + 1, high, depth - 1), lt, d, low, high, depth)
      \<in> measure (\<lambda>(lt, d, low, high, depth). nat (high - low + 1))"
    using partition_bounds[of low high lt d] by simp
qed

declare introsortRange.simps [simp del]

text \<open>
  \<^verbatim>\<open>int(math.Log2(float64(pq.size)))\<close>: the floor of the binary logarithm, which
  is what the float computation gives for every size from 1 below \<open>2^47\<close>.
  \<^verbatim>\<open>introsort\<close> is called with \<open>size > 1\<close> only.
\<close>

function log2_floor :: "int \<Rightarrow> int" where
  "log2_floor n = (if n < 2 then 0 else 1 + log2_floor (n div 2))"
  by pat_completeness auto
termination
  by (relation "measure nat") auto

declare log2_floor.simps [simp del]

definition introsort :: "'a PQueue \<Rightarrow> 'a PQueue" where
  "introsort q =
     (let maxDepth = log2_floor (pq_size q) * 2
      in q\<lparr>pq_data := introsortRange (pq_less q) (pq_data q) 0 (pq_size q - 1) maxDepth\<rparr>)"

subsection \<open>timsort\<close>

function reverse :: "'a list \<Rightarrow> int \<Rightarrow> int \<Rightarrow> 'a list" where
  "reverse d start end' =
     (if start < end' then reverse (swap d start end') (start + 1) (end' - 1) else d)"
  by pat_completeness auto
termination
  by (relation "measure (\<lambda>(d, start, end'). nat (end' - start))") auto

declare reverse.simps [simp del]

text \<open>
  The two inner loops of \<^verbatim>\<open>findRuns\<close> advance \<open>i\<close> over an ascending run and over
  a run whose neighbours are descending or comparator-equal.
\<close>

function findRuns_ascending :: "('a \<Rightarrow> 'a \<Rightarrow> bool) \<Rightarrow> 'a list \<Rightarrow> int \<Rightarrow> int \<Rightarrow> int" where
  "findRuns_ascending lt d n i =
     (if i < n - 1 \<and> lt (d ! nat i) (d ! nat (i + 1)) then findRuns_ascending lt d n (i + 1)
      else i)"
  by pat_completeness auto
termination
  by (relation "measure (\<lambda>(lt, d, n, i). nat (n - i))") auto

declare findRuns_ascending.simps [simp del]

function findRuns_descending :: "('a \<Rightarrow> 'a \<Rightarrow> bool) \<Rightarrow> 'a list \<Rightarrow> int \<Rightarrow> int \<Rightarrow> int" where
  "findRuns_descending lt d n i =
     (if i < n - 1
         \<and> (lt (d ! nat (i + 1)) (d ! nat i)
            \<or> (\<not> lt (d ! nat i) (d ! nat (i + 1)) \<and> \<not> lt (d ! nat (i + 1)) (d ! nat i)))
      then findRuns_descending lt d n (i + 1)
      else i)"
  by pat_completeness auto
termination
  by (relation "measure (\<lambda>(lt, d, n, i). nat (n - i))") auto

declare findRuns_descending.simps [simp del]

lemma findRuns_ascending_ge: "i \<le> findRuns_ascending lt d n i"
proof (induction lt d n i rule: findRuns_ascending.induct)
  case (1 lt d n i)
  show ?case
  proof (cases "i < n - 1 \<and> lt (d ! nat i) (d ! nat (i + 1))")
    case True
    then have "findRuns_ascending lt d n i = findRuns_ascending lt d n (i + 1)"
      by (subst findRuns_ascending.simps) simp
    then show ?thesis using "1.IH"[OF True] by simp
  next
    case False
    then have "findRuns_ascending lt d n i = i"
      by (subst findRuns_ascending.simps) auto
    then show ?thesis by simp
  qed
qed

lemma findRuns_descending_ge: "i \<le> findRuns_descending lt d n i"
proof (induction lt d n i rule: findRuns_descending.induct)
  case (1 lt d n i)
  show ?case
  proof (cases "i < n - 1
         \<and> (lt (d ! nat (i + 1)) (d ! nat i)
            \<or> (\<not> lt (d ! nat i) (d ! nat (i + 1)) \<and> \<not> lt (d ! nat (i + 1)) (d ! nat i)))")
    case True
    then have "findRuns_descending lt d n i = findRuns_descending lt d n (i + 1)"
      by (subst findRuns_descending.simps) simp
    then show ?thesis using "1.IH"[OF True] by simp
  next
    case False
    then have "findRuns_descending lt d n i = i"
      by (subst findRuns_descending.simps) auto
    then show ?thesis by simp
  qed
qed

text \<open>
  One round of the outer loop of \<^verbatim>\<open>findRuns\<close>: the slice after the round (a
  descending run is reversed) and the index \<open>i\<close> where the run ends.
\<close>

definition findRuns_run :: "('a \<Rightarrow> 'a \<Rightarrow> bool) \<Rightarrow> 'a list \<Rightarrow> int \<Rightarrow> int \<Rightarrow> 'a list \<times> int" where
  "findRuns_run lt d n i =
     (let start = i in
      if lt (d ! nat i) (d ! nat (i + 1)) then (d, findRuns_ascending lt d n i)
      else (let e = findRuns_descending lt d n i in (reverse d start e, e)))"

lemma findRuns_run_ge: "i \<le> snd (findRuns_run lt d n i)"
  using findRuns_ascending_ge[of i lt d n] findRuns_descending_ge[of i lt d n]
  by (simp add: findRuns_run_def Let_def)

function findRuns_loop ::
  "('a \<Rightarrow> 'a \<Rightarrow> bool) \<Rightarrow> 'a list \<Rightarrow> int \<Rightarrow> int list \<Rightarrow> int \<Rightarrow> 'a list \<times> int list" where
  "findRuns_loop lt d n runs i =
     (if i < n - 1 then
        (let r = findRuns_run lt d n i
         in findRuns_loop lt (fst r) n (runs @ [snd r + 1]) (snd r + 1))
      else (d, runs))"
  by pat_completeness auto
termination
proof (relation "measure (\<lambda>(lt, d, n, runs, i). nat (n - i))")
  show "wf (measure (\<lambda>(lt, d, n, runs, i). nat (n - i)))" by simp
next
  fix lt :: "'a \<Rightarrow> 'a \<Rightarrow> bool" and d :: "'a list" and n i :: int and runs :: "int list" and x
  assume "i < n - 1" and "x = findRuns_run lt d n i"
  then show "((lt, fst x, n, runs @ [snd x + 1], snd x + 1), lt, d, n, runs, i)
      \<in> measure (\<lambda>(lt, d, n, runs, i). nat (n - i))"
    using findRuns_run_ge[of i lt d n] by simp
qed

declare findRuns_loop.simps [simp del]

text \<open>\<^verbatim>\<open>findRuns\<close> returns \<^verbatim>\<open>pq.data\<close> after the call and the run boundaries.\<close>

definition findRuns :: "('a \<Rightarrow> 'a \<Rightarrow> bool) \<Rightarrow> 'a list \<Rightarrow> int \<Rightarrow> 'a list \<times> int list" where
  "findRuns lt d n =
     (let r = findRuns_loop lt d n [0] 0;
          runs = snd r
      in (fst r, if runs ! nat (int (length runs) - 1) \<noteq> n then runs @ [n] else runs))"

text \<open>
  The inner loop of \<^verbatim>\<open>mergeRuns\<close>:
  \<^verbatim>\<open>for i := 1; i < len(runs)-1; i += 2\<close>.
\<close>

function mergeRuns_pass ::
  "('a \<Rightarrow> 'a \<Rightarrow> bool) \<Rightarrow> 'a list \<Rightarrow> 'a list \<Rightarrow> int list \<Rightarrow> int list \<Rightarrow> int
     \<Rightarrow> 'a list \<times> 'a list \<times> int list" where
  "mergeRuns_pass lt d temp runs newRuns i =
     (if i < int (length runs) - 1 then
        (let left = runs ! nat (i - 1);
             mid = runs ! nat i - 1;
             right = runs ! nat (i + 1) - 1;
             r = merge lt d temp left mid right
         in mergeRuns_pass lt (fst r) (snd r) runs (newRuns @ [runs ! nat (i + 1)]) (i + 2))
      else (d, temp, newRuns))"
  by pat_completeness auto
termination
  by (relation "measure (\<lambda>(lt, d, temp, runs, newRuns, i). nat (int (length runs) - i))") auto

declare mergeRuns_pass.simps [simp del]

lemma mergeRuns_pass_length:
  "0 \<le> i \<Longrightarrow>
   int (length (snd (snd (mergeRuns_pass lt d temp runs newRuns i))))
     = int (length newRuns)
       + (if i < int (length runs) - 1 then (int (length runs) - i) div 2 else 0)"
proof (induction lt d temp runs newRuns i rule: mergeRuns_pass.induct)
  case (1 lt d temp runs newRuns i)
  show ?case
  proof (cases "i < int (length runs) - 1")
    case False
    then have "mergeRuns_pass lt d temp runs newRuns i = (d, temp, newRuns)"
      by (subst mergeRuns_pass.simps) simp
    then show ?thesis using False by simp
  next
    case True
    let ?r = "merge lt d temp (runs ! nat (i - 1)) (runs ! nat i - 1) (runs ! nat (i + 1) - 1)"
    have eq: "mergeRuns_pass lt d temp runs newRuns i
        = mergeRuns_pass lt (fst ?r) (snd ?r) runs (newRuns @ [runs ! nat (i + 1)]) (i + 2)"
      using True by (subst mergeRuns_pass.simps) (simp add: Let_def)
    have ih: "int (length (snd (snd (mergeRuns_pass lt (fst ?r) (snd ?r) runs
                 (newRuns @ [runs ! nat (i + 1)]) (i + 2)))))
        = int (length (newRuns @ [runs ! nat (i + 1)]))
          + (if i + 2 < int (length runs) - 1 then (int (length runs) - (i + 2)) div 2 else 0)"
      using "1.IH"[OF True refl refl refl refl] "1.prems" by simp
    show ?thesis unfolding eq ih using True by auto
  qed
qed

function mergeRuns_loop ::
  "('a \<Rightarrow> 'a \<Rightarrow> bool) \<Rightarrow> 'a list \<Rightarrow> 'a list \<Rightarrow> int list \<Rightarrow> 'a list" where
  "mergeRuns_loop lt d temp runs =
     (if int (length runs) > 2 then
        (let p = mergeRuns_pass lt d temp runs [runs ! 0] 1;
             newRuns = snd (snd p);
             newRuns1 = (if int (length runs) smod 2 = 0
                         then newRuns @ [runs ! nat (int (length runs) - 1)] else newRuns)
         in mergeRuns_loop lt (fst p) (fst (snd p)) newRuns1)
      else d)"
  by pat_completeness auto
termination
proof (relation "measure (\<lambda>(lt, d, temp, runs). length runs)")
  show "wf (measure (\<lambda>(lt, d, temp, runs). length runs))" by simp
next
  fix lt :: "'a \<Rightarrow> 'a \<Rightarrow> bool" and d temp :: "'a list" and runs :: "int list"
    and x xa xb
  assume gt: "2 < int (length runs)"
    and x: "x = mergeRuns_pass lt d temp runs [runs ! 0] 1"
    and xa: "xa = snd (snd x)"
    and xb: "xb = (if int (length runs) smod 2 = 0
                   then xa @ [runs ! nat (int (length runs) - 1)] else xa)"
  have len: "int (length xa) = 1 + (int (length runs) - 1) div 2"
    using mergeRuns_pass_length[of 1 lt d temp runs "[runs ! 0]"] gt x xa by simp
  have sm: "int (length runs) smod 2 = int (length runs) mod 2"
    by (simp add: signed_modulo_int_def sgn_if)
  have "int (length xb) < int (length runs)"
  proof (cases "int (length runs) mod 2 = 0")
    case True
    then have "int (length xb) = int (length xa) + 1" using xb sm by simp
    then show ?thesis using len gt True by presburger
  next
    case False
    then have "int (length xb) = int (length xa)" using xb sm by simp
    then show ?thesis using len gt False by presburger
  qed
  then show "((lt, fst x, fst (snd x), xb), lt, d, temp, runs)
      \<in> measure (\<lambda>(lt, d, temp, runs). length runs)"
    by simp
qed

declare mergeRuns_loop.simps [simp del]

definition mergeRuns :: "'a GoType \<Rightarrow> ('a \<Rightarrow> 'a \<Rightarrow> bool) \<Rightarrow> 'a list \<Rightarrow> int \<Rightarrow> int list \<Rightarrow> 'a list" where
  "mergeRuns ty lt d n runs =
     (let temp = replicate (nat n) (zeroT ty) in mergeRuns_loop lt d temp runs)"

definition timsort :: "'a GoType \<Rightarrow> 'a PQueue \<Rightarrow> 'a PQueue" where
  "timsort ty q =
     (let minMerge = 32 in
      if pq_size q \<le> minMerge then insertionSort q
      else
        (let r = findRuns (pq_less q) (pq_data q) (pq_size q)
         in q\<lparr>pq_data := mergeRuns ty (pq_less q) (fst r) (pq_size q) (snd r)\<rparr>))"

subsection \<open>Integers read by reflection\<close>

text \<open>
  Go's \<^verbatim>\<open>int\<close> has 64 bits on the platforms the package is built for; sums and
  differences of two such numbers wrap around. \<^verbatim>\<open>reflect.Value.Int\<close> panics
  unless the kind is one of the five signed integer kinds.
\<close>

definition wrap64 :: "int \<Rightarrow> int" where
  "wrap64 x = (x + 2 ^ 63) mod 2 ^ 64 - 2 ^ 63"

definition Value_Int :: "'a GoType \<Rightarrow> 'a \<Rightarrow> error + int" where
  "Value_Int ty x =
     (if kindOf ty x = KInt \<or> kindOf ty x = KInt8 \<or> kindOf ty x = KInt16
         \<or> kindOf ty x = KInt32 \<or> kindOf ty x = KInt64
      then Inr (intOf ty x) else Inl PanicValueInt)"

function getMaxInt_loop :: "'a GoType \<Rightarrow> 'a list \<Rightarrow> int \<Rightarrow> int \<Rightarrow> int \<Rightarrow> int" where
  "getMaxInt_loop ty d n i mx =
     (if i < n then
        (if kindOf ty (d ! nat i) = KInt \<or> kindOf ty (d ! nat i) = KInt64
            \<or> kindOf ty (d ! nat i) = KInt32
         then
           (let intVal = intOf ty (d ! nat i)
            in getMaxInt_loop ty d n (i + 1) (if intVal > mx then intVal else mx))
         else getMaxInt_loop ty d n (i + 1) mx)
      else mx)"
  by pat_completeness auto
termination
  by (relation "measure (\<lambda>(ty, d, n, i, mx). nat (n - i))") auto

declare getMaxInt_loop.simps [simp del]

definition getMaxInt :: "'a GoType \<Rightarrow> 'a PQueue \<Rightarrow> int" where
  "getMaxInt ty q =
     (if pq_size q = 0 then 0 else getMaxInt_loop ty (pq_data q) (pq_size q) 0 0)"

function getMinMaxInt_loop ::
  "'a GoType \<Rightarrow> 'a list \<Rightarrow> int \<Rightarrow> int \<Rightarrow> int \<Rightarrow> int \<Rightarrow> error + int \<times> int" where
  "getMinMaxInt_loop ty d n i mn mx =
     (if i < n then
        (case Value_Int ty (d ! nat i) of
           Inl e \<Rightarrow> Inl e
         | Inr intVal \<Rightarrow>
             getMinMaxInt_loop ty d n (i + 1)
               (if intVal < mn then intVal else mn) (if intVal > mx then intVal else mx))
      else Inr (mn, mx))"
  by pat_completeness auto
termination
  by (relation "measure (\<lambda>(ty, d, n, i, mn, mx). nat (n - i))") auto

declare getMinMaxInt_loop.simps [simp del]

definition getMinMaxInt :: "'a GoType \<Rightarrow> 'a PQueue \<Rightarrow> error + int \<times> int" where
  "getMinMaxInt ty q =
     (if pq_size q = 0 then Inr (0, 0)
      else
        (case Value_Int ty (pq_data q ! 0) of
           Inl e \<Rightarrow> Inl e
         | Inr v \<Rightarrow> getMinMaxInt_loop ty (pq_data q) (pq_size q) 1 v v))"

subsection \<open>radixSort\<close>

text \<open>
  The three loops of \<^verbatim>\<open>countingSortByDigit\<close>. An index outside a slice is a
  panic; a negative number gives a negative digit, which is such an index.
\<close>

function countingSortByDigit_count ::
  "'a GoType \<Rightarrow> 'a list \<Rightarrow> int \<Rightarrow> int \<Rightarrow> int list \<Rightarrow> int \<Rightarrow> error + int list" where
  "countingSortByDigit_count ty d n exp cnt i =
     (if i < n then
        (case Value_Int ty (d ! nat i) of
           Inl e \<Rightarrow> Inl e
         | Inr v \<Rightarrow>
             (let digit = (v sdiv exp) smod 10 in
              if 0 \<le> digit \<and> digit < int (length cnt)
              then countingSortByDigit_count ty d n exp
                     (cnt[nat digit := cnt ! nat digit + 1]) (i + 1)
              else Inl PanicIndex))
      else Inr cnt)"
  by pat_completeness auto
termination
  by (relation "measure (\<lambda>(ty, d, n, exp, cnt, i). nat (n - i))") auto

declare countingSortByDigit_count.simps [simp del]

function countingSortByDigit_positions :: "int list \<Rightarrow> int \<Rightarrow> int list" where
  "countingSortByDigit_positions cnt i =
     (if i < 10
      then countingSortByDigit_positions
             (cnt[nat i := cnt ! nat i + cnt ! nat (i - 1)]) (i + 1)
      else cnt)"
  by pat_completeness auto
termination
  by (relation "measure (\<lambda>(cnt, i). nat (10 - i))") auto

declare countingSortByDigit_positions.simps [simp del]

function countingSortByDigit_build ::
  "'a GoType \<Rightarrow> 'a list \<Rightarrow> int \<Rightarrow> 'a list \<Rightarrow> int list \<Rightarrow> int \<Rightarrow> error + 'a list" where
  "countingSortByDigit_build ty d exp output cnt i =
     (if i \<ge> 0 then
        (case Value_Int ty (d ! nat i) of
           Inl e \<Rightarrow> Inl e
         | Inr v \<Rightarrow>
             (let digit = (v sdiv exp) smod 10 in
              if 0 \<le> digit \<and> digit < int (length cnt) then
                (if 0 \<le> cnt ! nat digit - 1 \<and> cnt ! nat digit - 1 < int (length output)
                 then countingSortByDigit_build ty d exp
                        (output[nat (cnt ! nat digit - 1) := d ! nat i])
                        (cnt[nat digit := cnt ! nat digit - 1]) (i - 1)
                 else Inl PanicIndex)
              else Inl PanicIndex))
      else Inr output)"
  by pat_completeness auto
termination
  by (relation "measure (\<lambda>(ty, d, exp, output, cnt, i). nat (i + 1))") auto

declare countingSortByDigit_build.simps [simp del]

definition countingSortByDigit :: "'a GoType \<Rightarrow> 'a PQueue \<Rightarrow> int \<Rightarrow> error + 'a PQueue" where
  "countingSortByDigit ty q exp =
     (let output = replicate (nat (pq_size q)) (zeroT ty);
          cnt = replicate 10 0
      in case countingSortByDigit_count ty (pq_data q) (pq_size q) exp cnt 0 of
           Inl e \<Rightarrow> Inl e
         | Inr cnt1 \<Rightarrow>
             (case countingSortByDigit_build ty (pq_data q) exp output
                     (countingSortByDigit_positions cnt1 1) (pq_size q - 1) of
                Inl e \<Rightarrow> Inl e
              | Inr output1 \<Rightarrow>
                  Inr (q\<lparr>pq_data :=
                          copy_slice (take (nat (pq_size q)) (pq_data q)) output1
                          @ drop (nat (pq_size q)) (pq_data q)\<rparr>)))"

lemma sdiv_pos_abs: "(0::int) < m sdiv e \<Longrightarrow> e \<noteq> 0 \<and> \<bar>e\<bar> \<le> \<bar>m\<bar>"
proof -
  assume h: "0 < m sdiv e"
  have e0: "e \<noteq> 0"
  proof
    assume "e = 0"
    with h show False by (simp add: signed_divide_int_def)
  qed
  have "\<bar>m\<bar> div \<bar>e\<bar> \<noteq> 0"
    using h by (auto simp: signed_divide_int_def)
  then have "\<not> \<bar>m\<bar> < \<bar>e\<bar>"
    using div_pos_pos_trivial[of "\<bar>m\<bar>" "\<bar>e\<bar>"] by auto
  with e0 show ?thesis by simp
qed

text \<open>
  The loop \<^verbatim>\<open>for exp := 1; maxVal/exp > 0; exp *= 10\<close>. The product is not
  wrapped here: from 1 the values of \<open>exp\<close> are the powers of ten, which fit 64 bits
  up to \<open>10^18\<close>; the next product wraps to a negative number, for which the
  quotient is not positive, just as the quotient by \<open>10^19\<close> is 0 for every
  \<open>maxVal\<close> below \<open>2^63\<close>. So the loop makes the same rounds with and without the
  wrap-around.
\<close>

function radixSort_loop :: "'a GoType \<Rightarrow> 'a PQueue \<Rightarrow> int \<Rightarrow> int \<Rightarrow> error + 'a PQueue" where
  "radixSort_loop ty q maxVal exp =
     (if maxVal sdiv exp > 0 then
        (case countingSortByDigit ty q exp of
           Inl e \<Rightarrow> Inl e
         | Inr q1 \<Rightarrow> radixSort_loop ty q1 maxVal (exp * 10))
      else Inr q)"
  by pat_completeness auto
termination
proof (relation "measure (\<lambda>(ty, q, maxVal, exp). nat (\<bar>maxVal\<bar> - \<bar>exp\<bar> + 1))")
  show "wf (measure (\<lambda>(ty, q, maxVal, exp). nat (\<bar>maxVal\<bar> - \<bar>exp\<bar> + 1)))" by simp
next
  fix ty :: "'a GoType" and q :: "'a PQueue" and maxVal exp :: int and x2
  assume "0 < maxVal sdiv exp"
  then have "exp \<noteq> 0 \<and> \<bar>exp\<bar> \<le> \<bar>maxVal\<bar>" by (rule sdiv_pos_abs)
  then have "1 \<le> \<bar>exp\<bar> \<and> \<bar>exp\<bar> \<le> \<bar>maxVal\<bar>" by arith
  then show "((ty, x2, maxVal, exp * 10), ty, q, maxVal, exp)
      \<in> measure (\<lambda>(ty, q, maxVal, exp). nat (\<bar>maxVal\<bar> - \<bar>exp\<bar> + 1))"
    by (simp add: abs_mult)
qed

declare radixSort_loop.simps [simp del]

definition radixSort :: "'a GoType \<Rightarrow> 'a PQueue \<Rightarrow> error + 'a PQueue" where
  "radixSort ty q =
     (if pq_dataType q \<noteq> IntegerType then Inr (quickSort q)
      else
        (let maxVal = getMaxInt ty q in
         if maxVal \<le> 0 then Inr q
         else radixSort_loop ty q maxVal 1))"

subsection \<open>countingSort\<close>

function countingSort_count ::
  "'a GoType \<Rightarrow> 'a list \<Rightarrow> int \<Rightarrow> int \<Rightarrow> int list \<Rightarrow> int \<Rightarrow> error + int list" where
  "countingSort_count ty d n minVal cnt i =
     (if i < n then
        (case Value_Int ty (d ! nat i) of
           Inl e \<Rightarrow> Inl e
         | Inr v \<Rightarrow>
             (let index = wrap64 (v - minVal) in
              if 0 \<le> index \<and> index < int (length cnt)
              then countingSort_count ty d n minVal (cnt[nat index := cnt ! nat index + 1]) (i + 1)
              else Inl PanicIndex))
      else Inr cnt)"
  by pat_completeness auto
termination
  by (relation "measure (\<lambda>(ty, d, n, minVal, cnt, i). nat (n - i))") auto

declare countingSort_count.simps [simp del]

text \<open>
  The inner loop \<^verbatim>\<open>for count[i] > 0 { ...; pos++; count[i]-- }\<close>, with the value of
  \<^verbatim>\<open>count[i]\<close> as the argument \<open>c\<close>; it returns the slice and \<open>pos\<close>.
\<close>

function countingSort_emit ::
  "'a GoType \<Rightarrow> 'a list \<Rightarrow> int \<Rightarrow> int \<Rightarrow> int \<Rightarrow> int \<Rightarrow> error + 'a list \<times> int" where
  "countingSort_emit ty d minVal i c pos =
     (if c > 0 then
        (case ofInt ty (wrap64 (minVal + i)) of
           None \<Rightarrow> Inl PanicTypeAssertion
         | Some x \<Rightarrow>
             (if 0 \<le> pos \<and> pos < int (length d)
              then countingSort_emit ty (d[nat pos := x]) minVal i (c - 1) (pos + 1)
              else Inl PanicIndex))
      else Inr (d, pos))"
  by pat_completeness auto
termination
  by (relation "measure (\<lambda>(ty, d, minVal, i, c, pos). nat c)") auto

declare countingSort_emit.simps [simp del]

function countingSort_rebuild ::
  "'a GoType \<Rightarrow> 'a list \<Rightarrow> int \<Rightarrow> int list \<Rightarrow> int \<Rightarrow> int \<Rightarrow> error + 'a list" where
  "countingSort_rebuild ty d minVal cnt i pos =
     (if i < int (length cnt) then
        (case countingSort_emit ty d minVal i (cnt ! nat i) pos of
           Inl e \<Rightarrow> Inl e
         | Inr r \<Rightarrow> countingSort_rebuild ty (fst r) minVal cnt (i + 1) (snd r))
      else Inr d)"
  by pat_completeness auto
termination
  by (relation "measure (\<lambda>(ty, d, minVal, cnt, i, pos). nat (int (length cnt) - i))") auto

declare countingSort_rebuild.simps [simp del]

definition countingSort :: "'a GoType \<Rightarrow> 'a PQueue \<Rightarrow> error + 'a PQueue" where
  "countingSort ty q =
     (if pq_dataType q \<noteq> IntegerType then Inr (quickSort q)
      else
        (case getMinMaxInt ty q of
           Inl e \<Rightarrow> Inl e
         | Inr mm \<Rightarrow>
             (let minVal = fst mm; maxVal = snd mm in
              if wrap64 (maxVal - minVal) > 10000 then Inr (quickSort q)
              else if wrap64 (wrap64 (maxVal - minVal) + 1) < 0 then Inl PanicMakeLen
              else
                (let cnt = replicate (nat (wrap64 (wrap64 (maxVal - minVal) + 1))) 0 in
                 case countingSort_count ty (pq_data q) (pq_size q) minVal cnt 0 of
                   Inl e \<Rightarrow> Inl e
                 | Inr cnt1 \<Rightarrow>
                     (case countingSort_rebuild ty (pq_data q) minVal cnt1 0 0 of
                        Inl e \<Rightarrow> Inl e
                      | Inr d1 \<Rightarrow> Inr (q\<lparr>pq_data := d1\<rparr>))))))"

subsection \<open>The strategy selector\<close>

function isNearlySorted_loop ::
  "('a \<Rightarrow> 'a \<Rightarrow> bool) \<Rightarrow> 'a list \<Rightarrow> int \<Rightarrow> int \<Rightarrow> int \<Rightarrow> int \<Rightarrow> bool" where
  "isNearlySorted_loop lt d n threshold inversions i =
     (if i < n - 1 then
        (if lt (d ! nat (i + 1)) (d ! nat i) then
           (if inversions + 1 > threshold then False
            else isNearlySorted_loop lt d n threshold (inversions + 1) (i + 1))
         else isNearlySorted_loop lt d n threshold inversions (i + 1))
      else True)"
  by pat_completeness auto
termination
  by (relation "measure (\<lambda>(lt, d, n, threshold, inversions, i). nat (n - i))") auto

declare isNearlySorted_loop.simps [simp del]

definition isNearlySorted :: "'a PQueue \<Rightarrow> bool" where
  "isNearlySorted q =
     (if pq_size q \<le> 1 then True
      else
        (let threshold0 = pq_size q sdiv 10;
             threshold = (if threshold0 < 1 then 1 else threshold0)
         in isNearlySorted_loop (pq_less q) (pq_data q) (pq_size q) threshold 0 0))"

definition hasSmallRange :: "'a GoType \<Rightarrow> 'a PQueue \<Rightarrow> error + bool" where
  "hasSmallRange ty q =
     (if pq_dataType q \<noteq> IntegerType \<or> pq_size q = 0 then Inr False
      else
        (case getMinMaxInt ty q of
           Inl e \<Rightarrow> Inl e
         | Inr mm \<Rightarrow> Inr (wrap64 (snd mm - fst mm) \<le> 1000)))"

definition chooseOptimalStrategy :: "'a GoType \<Rightarrow> 'a PQueue \<Rightarrow> error + SortStrategy" where
  "chooseOptimalStrategy ty q =
     (let n = pq_size q in
      if n \<le> 16 then Inr InsertionStrategy
      else if isNearlySorted q then Inr InsertionStrategy
      else if pq_dataType q = IntegerType \<and> n > 100 then
        (case hasSmallRange ty q of
           Inl e \<Rightarrow> Inl e
         | Inr small \<Rightarrow> Inr (if small then CountingStrategy else RadixStrategy))
      else if pq_dataType q = StringType then
        Inr (if n > 1000 then IntrosortStrategy else TimsortStrategy)
      else if pq_dataType q = SliceType \<or> pq_dataType q = ArrayType then Inr MergeStrategy
      else if pq_dataType q = StructType \<or> pq_dataType q = InterfaceType then
        Inr (if n > 1000 then IntrosortStrategy else TimsortStrategy)
      else if pq_dataType q = PointerType \<or> pq_dataType q = MapType
              \<or> pq_dataType q = ChannelType \<or> pq_dataType q = FuncType then Inr QuickStrategy
      else if n > 1000 then Inr IntrosortStrategy
      else Inr TimsortStrategy)"

subsection \<open>SortWithStrategy, Sort and New\<close>

definition SortWithStrategy :: "'a GoType \<Rightarrow> 'a PQueue \<Rightarrow> SortStrategy \<Rightarrow> error + 'a PQueue" where
  "SortWithStrategy ty q strategy =
     (if pq_size q \<le> 1 then Inr q
      else
        (case (if strategy = AutoStrategy then chooseOptimalStrategy ty q else Inr strategy) of
           Inl e \<Rightarrow> Inl e
         | Inr actualStrategy \<Rightarrow>
             (case actualStrategy of
                InsertionStrategy \<Rightarrow> Inr (insertionSort q)
              | TimsortStrategy \<Rightarrow> Inr (timsort ty q)
              | IntrosortStrategy \<Rightarrow> Inr (introsort q)
              | MergeStrategy \<Rightarrow> Inr (mergeSort ty q)
              | QuickStrategy \<Rightarrow> Inr (quickSort q)
              | RadixStrategy \<Rightarrow>
                  (if pq_dataType q = IntegerType then radixSort ty q else Inr (quickSort q))
              | CountingStrategy \<Rightarrow>
                  (if pq_dataType q = IntegerType then countingSort ty q else Inr (quickSort q))
              | AutoStrategy \<Rightarrow> Inr (quickSort q))))"

definition Sort :: "'a GoType \<Rightarrow> 'a PQueue \<Rightarrow> error + 'a PQueue" where
  "Sort ty q = SortWithStrategy ty q AutoStrategy"

text \<open>
  \<^verbatim>\<open>inferDataType\<close> looks at the first element. \<^verbatim>\<open>reflect.TypeOf\<close> of a nil
  interface value is nil, and the call of \<^verbatim>\<open>Kind\<close> on it panics.
\<close>

definition inferDataType :: "'a GoType \<Rightarrow> 'a list \<Rightarrow> error + DataType" where
  "inferDataType ty data =
     (if length data = 0 then Inr GenericType
      else
        (let k = kindOf ty (data ! 0) in
         if k = KInvalid then Inl PanicNilType
         else if k = KPointer then Inr PointerType
         else if k = KInt \<or> k = KInt8 \<or> k = KInt16 \<or> k = KInt32 \<or> k = KInt64
                 \<or> k = KUint \<or> k = KUint8 \<or> k = KUint16 \<or> k = KUint32 \<or> k = KUint64
         then Inr IntegerType
         else if k = KFloat32 \<or> k = KFloat64 then Inr FloatType
         else if k = KString then Inr StringType
         else if k = KSlice then Inr SliceType
         else if k = KArray then Inr ArrayType
         else if k = KStruct then Inr StructType
         else if k = KMap then Inr MapType
         else if k = KInterface then Inr InterfaceType
         else if k = KChan then Inr ChannelType
         else if k = KFunc then Inr FuncType
         else Inr GenericType))"

definition New :: "'a GoType \<Rightarrow> 'a list \<Rightarrow> ('a \<Rightarrow> 'a \<Rightarrow> bool) \<Rightarrow> error + 'a PQueue" where
  "New ty data less' =
     (case inferDataType ty data of
        Inl e \<Rightarrow> Inl e
      | Inr t \<Rightarrow>
          Inr \<lparr>pq_data = copy_slice (replicate (length data) (zeroT ty)) data,
               pq_less = less', pq_dataType = t, pq_size = int (length data)\<rparr>)"

definition NewInts :: "int list \<Rightarrow> error + int PQueue" where
  "NewInts data = New intType data NewInts_less"

section \<open>Pop and Peek\<close>

lemma swo_irrefl: "strict_weak_order lt \<Longrightarrow> \<not> lt x x"
  by (simp add: strict_weak_order_def)

lemma swo_trans: "strict_weak_order lt \<Longrightarrow> lt x y \<Longrightarrow> lt y z \<Longrightarrow> lt x z"
  unfolding strict_weak_order_def by blast

lemma swo_asym: "strict_weak_order lt \<Longrightarrow> lt x y \<Longrightarrow> \<not> lt y x"
  using swo_irrefl swo_trans by metis

lemma swo_negtrans:
  assumes "strict_weak_order lt" "\<not> lt x y" "\<not> lt y z"
  shows "\<not> lt x z"
proof
  assume xz: "lt x z"
  have yx: "\<not> lt y x" using assms xz swo_trans by metis
  have zy: "\<not> lt z y" using assms xz swo_trans by metis
  have "\<not> lt x z \<and> \<not> lt z x"
    using assms(1) assms(2) yx assms(3) zy unfolding strict_weak_order_def by blast
  with xz show False by simp
qed

lemma swo_NewInts_less: "strict_weak_order NewInts_less"
  by (auto simp: strict_weak_order_def NewInts_less_def)

lemma Pop_scan_min:
  "strict_weak_order lt \<Longrightarrow> 0 \<le> m \<Longrightarrow> m < i \<Longrightarrow>
     (\<forall>j. 0 \<le> j \<and> j < i \<longrightarrow> \<not> lt (d ! nat j) (d ! nat m)) \<Longrightarrow>
     (\<forall>j. 0 \<le> j \<and> j < m \<longrightarrow> lt (d ! nat m) (d ! nat j)) \<Longrightarrow>
     0 \<le> Pop_scan lt d n i m \<and> Pop_scan lt d n i m < max i n
     \<and> (\<forall>j. 0 \<le> j \<and> j < max i n \<longrightarrow> \<not> lt (d ! nat j) (d ! nat (Pop_scan lt d n i m)))
     \<and> (\<forall>j. 0 \<le> j \<and> j < Pop_scan lt d n i m
            \<longrightarrow> lt (d ! nat (Pop_scan lt d n i m)) (d ! nat j))"
proof (induction lt d n i m rule: Pop_scan.induct)
  case (1 lt d n i m)
  note swo = "1.prems"(1) and inv_le = "1.prems"(4) and inv_first = "1.prems"(5)
  show ?case
  proof (cases "i < n")
    case False
    then have "Pop_scan lt d n i m = m" by (simp add: Pop_scan.simps[of lt d n i m])
    moreover have "max i n = i" using False by simp
    ultimately show ?thesis using "1.prems" by simp
  next
    case True
    let ?m' = "if lt (d ! nat i) (d ! nat m) then i else m"
    have eq: "Pop_scan lt d n i m = Pop_scan lt d n (i + 1) ?m'"
      using True by (simp add: Pop_scan.simps[of lt d n i m])
    have mx: "max (i + 1) n = max i n" using True by simp
    have a: "0 \<le> ?m'" using "1.prems" by simp
    have b: "?m' < i + 1" using "1.prems" by simp
    have c: "\<forall>j. 0 \<le> j \<and> j < i + 1 \<longrightarrow> \<not> lt (d ! nat j) (d ! nat ?m')"
    proof (intro allI impI)
      fix j assume j: "0 \<le> j \<and> j < i + 1"
      show "\<not> lt (d ! nat j) (d ! nat ?m')"
      proof (cases "lt (d ! nat i) (d ! nat m)")
        case lt_im: True
        show ?thesis
        proof (cases "j = i")
          case True
          then show ?thesis using lt_im swo_irrefl[OF swo] by simp
        next
          case False
          then have "\<not> lt (d ! nat j) (d ! nat m)" using j inv_le by simp
          then show ?thesis using lt_im swo_trans[OF swo] by auto
        qed
      next
        case nlt: False
        show ?thesis
        proof (cases "j = i")
          case True
          then show ?thesis using nlt by simp
        next
          case False
          then show ?thesis using nlt j inv_le by simp
        qed
      qed
    qed
    have e: "\<forall>j. 0 \<le> j \<and> j < ?m' \<longrightarrow> lt (d ! nat ?m') (d ! nat j)"
    proof (intro allI impI)
      fix j assume j: "0 \<le> j \<and> j < ?m'"
      show "lt (d ! nat ?m') (d ! nat j)"
      proof (cases "lt (d ! nat i) (d ! nat m)")
        case lt_im: True
        then have "j < i" using j by simp
        then have "\<not> lt (d ! nat j) (d ! nat m)" using j inv_le by simp
        then have "lt (d ! nat i) (d ! nat j)"
          using lt_im swo_negtrans[OF swo] by blast
        then show ?thesis using lt_im by simp
      next
        case False
        then show ?thesis using j inv_first by simp
      qed
    qed
    show ?thesis
      using "1.IH"[OF True swo a b c e] unfolding eq mx by simp
  qed
qed

lemma Peek_scan_eq: "Peek_scan lt d n i m = Pop_scan lt d n i m"
proof (induction lt d n i m rule: Pop_scan.induct)
  case (1 lt d n i m)
  show ?case
  proof (cases "i < n")
    case True
    then show ?thesis
      using "1.IH" by (simp add: Pop_scan.simps[of lt d n i m] Peek_scan.simps[of lt d n i m])
  next
    case False
    then show ?thesis
      by (simp add: Pop_scan.simps[of lt d n i m] Peek_scan.simps[of lt d n i m])
  qed
qed

text \<open>
  Claim C2. On an empty queue \<^verbatim>\<open>Pop\<close> returns the zero value with the
  EmptyQueue error. On a non-empty queue with a strict weak order it returns the live
  element at some index \<open>m\<close> such that no live element is less than it
  (comparator-minimal) and every live element before \<open>m\<close> is strictly greater (first
  occurrence among the minima); the slot \<open>m\<close> receives the last live element and the
  size decreases by exactly 1.
\<close>

theorem Pop_returns_first_minimum:
  assumes "strict_weak_order (pq_less q)" and "well_formed q"
  shows "(pq_size q = 0 \<longrightarrow> Pop ty q = ((zeroT ty, Some EmptyQueue), q))
    \<and> (pq_size q \<noteq> 0 \<longrightarrow>
         (\<exists>m. 0 \<le> m \<and> m < pq_size q
            \<and> (\<forall>j. 0 \<le> j \<and> j < pq_size q
                   \<longrightarrow> \<not> pq_less q (pq_data q ! nat j) (pq_data q ! nat m))
            \<and> (\<forall>j. 0 \<le> j \<and> j < m
                   \<longrightarrow> pq_less q (pq_data q ! nat m) (pq_data q ! nat j))
            \<and> Pop ty q =
                ((pq_data q ! nat m, None),
                 q\<lparr>pq_data := (pq_data q)[nat m := pq_data q ! nat (pq_size q - 1)],
                   pq_size := pq_size q - 1\<rparr>)))"
proof (intro conjI impI)
  assume "pq_size q = 0"
  then show "Pop ty q = ((zeroT ty, Some EmptyQueue), q)" by (simp add: Pop_def)
next
  assume ne: "pq_size q \<noteq> 0"
  then have pos: "1 \<le> pq_size q" using assms(2) by (simp add: well_formed_def)
  let ?m = "Pop_scan (pq_less q) (pq_data q) (pq_size q) 1 0"
  have init1: "\<forall>j. 0 \<le> j \<and> j < 1 \<longrightarrow> \<not> pq_less q (pq_data q ! nat j) (pq_data q ! nat 0)"
  proof (intro allI impI)
    fix j :: int assume "0 \<le> j \<and> j < 1"
    then have "j = 0" by simp
    then show "\<not> pq_less q (pq_data q ! nat j) (pq_data q ! nat 0)"
      using swo_irrefl[OF assms(1)] by simp
  qed
  have init2: "\<forall>j. 0 \<le> j \<and> j < 0 \<longrightarrow> pq_less q (pq_data q ! nat 0) (pq_data q ! nat j)"
    by auto
  have mx: "max 1 (pq_size q) = pq_size q" using pos by simp
  have p: "0 \<le> ?m \<and> ?m < pq_size q
     \<and> (\<forall>j. 0 \<le> j \<and> j < pq_size q \<longrightarrow> \<not> pq_less q (pq_data q ! nat j) (pq_data q ! nat ?m))
     \<and> (\<forall>j. 0 \<le> j \<and> j < ?m \<longrightarrow> pq_less q (pq_data q ! nat ?m) (pq_data q ! nat j))"
    using Pop_scan_min[OF assms(1) _ _ init1 init2, of "pq_size q"] unfolding mx by simp
  have "Pop ty q =
      ((pq_data q ! nat ?m, None),
       q\<lparr>pq_data := (pq_data q)[nat ?m := pq_data q ! nat (pq_size q - 1)],
         pq_size := pq_size q - 1\<rparr>)"
    using ne by (simp add: Pop_def Let_def)
  with p show "\<exists>m. 0 \<le> m \<and> m < pq_size q
            \<and> (\<forall>j. 0 \<le> j \<and> j < pq_size q
                   \<longrightarrow> \<not> pq_less q (pq_data q ! nat j) (pq_data q ! nat m))
            \<and> (\<forall>j. 0 \<le> j \<and> j < m
                   \<longrightarrow> pq_less q (pq_data q ! nat m) (pq_data q ! nat j))
            \<and> Pop ty q =
                ((pq_data q ! nat m, None),
                 q\<lparr>pq_data := (pq_data q)[nat m := pq_data q ! nat (pq_size q - 1)],
                   pq_size := pq_size q - 1\<rparr>)"
    by blast
qed

theorem Pop_returns_first_minimum_witness:
  "strict_weak_order NewInts_less
   \<and> well_formed \<lparr>pq_data = [3, 1, 2, 1], pq_less = NewInts_less, pq_dataType = IntegerType, pq_size = 4\<rparr>
   \<and> Pop intType
        \<lparr>pq_data = [3, 1, 2, 1], pq_less = NewInts_less, pq_dataType = IntegerType, pq_size = 4\<rparr>
       = ((1, None),
          \<lparr>pq_data = [3, 1, 2, 1], pq_less = NewInts_less, pq_dataType = IntegerType, pq_size = 3\<rparr>)"
proof -
  let ?q = "\<lparr>pq_data = [3, 1, 2, 1], pq_less = NewInts_less, pq_dataType = IntegerType,
             pq_size = 4\<rparr>"
  have h1: "strict_weak_order (pq_less ?q)" by (simp add: swo_NewInts_less)
  have h2: "well_formed ?q" by (simp add: well_formed_def)
  have "Pop intType ?q
       = ((1, None),
          \<lparr>pq_data = [3, 1, 2, 1], pq_less = NewInts_less, pq_dataType = IntegerType, pq_size = 3\<rparr>)"
    using Pop_returns_first_minimum[OF h1 h2, of intType]
    by (simp add: Pop_def Pop_scan.simps NewInts_less_def)
  with h1 h2 show ?thesis by simp
qed

text \<open>
  Claim C8. \<^verbatim>\<open>Peek\<close> returns the same pair (element and error) as
  \<^verbatim>\<open>Pop\<close> and leaves the queue as it was; on a non-empty queue the error is nil;
  on an empty queue both return the EmptyQueue error and the queue after the call is
  the queue before it.
\<close>

theorem Peek_same_as_Pop_without_mutation:
  "fst (Peek ty q) = fst (Pop ty q)
   \<and> snd (Peek ty q) = q
   \<and> (pq_size q \<noteq> 0 \<longrightarrow> snd (fst (Peek ty q)) = None)
   \<and> (pq_size q = 0 \<longrightarrow>
        Peek ty q = ((zeroT ty, Some EmptyQueue), q) \<and> Pop ty q = ((zeroT ty, Some EmptyQueue), q))"
  by (simp add: Peek_def Pop_def Peek_scan_eq Let_def)

theorem Peek_same_as_Pop_without_mutation_witness:
  "Peek intType
      \<lparr>pq_data = [3, 1, 2, 1], pq_less = NewInts_less, pq_dataType = IntegerType, pq_size = 4\<rparr>
     = ((1, None),
        \<lparr>pq_data = [3, 1, 2, 1], pq_less = NewInts_less, pq_dataType = IntegerType, pq_size = 4\<rparr>)
   \<and> Peek intType
      \<lparr>pq_data = [], pq_less = NewInts_less, pq_dataType = GenericType, pq_size = 0\<rparr>
     = ((0, Some EmptyQueue),
        \<lparr>pq_data = [], pq_less = NewInts_less, pq_dataType = GenericType, pq_size = 0\<rparr>)
   \<and> Pop intType
      \<lparr>pq_data = [], pq_less = NewInts_less, pq_dataType = GenericType, pq_size = 0\<rparr>
     = ((0, Some EmptyQueue),
        \<lparr>pq_data = [], pq_less = NewInts_less, pq_dataType = GenericType, pq_size = 0\<rparr>)"
  using Peek_same_as_Pop_without_mutation[of intType
      "\<lparr>pq_data = [3, 1, 2, 1], pq_less = NewInts_less, pq_dataType = IntegerType, pq_size = 4\<rparr>"]
    Peek_same_as_Pop_without_mutation[of intType
      "\<lparr>pq_data = [], pq_less = NewInts_less, pq_dataType = GenericType, pq_size = 0\<rparr>"]
  by (simp add: Peek_def Pop_def Peek_scan.simps Pop_scan.simps NewInts_less_def intType_def)

section \<open>The nearly-sorted test\<close>

text \<open>
  The number of adjacent inversions among the first \<open>k\<close> adjacent pairs of the slice:
  the positions \<open>i < k\<close> with \<^verbatim>\<open>less(data[i+1], data[i])\<close>.
\<close>

definition adjacent_inversions :: "('a \<Rightarrow> 'a \<Rightarrow> bool) \<Rightarrow> 'a list \<Rightarrow> int \<Rightarrow> int" where
  "adjacent_inversions lt d k = int (length (filter (\<lambda>i. lt (d ! Suc i) (d ! i)) [0..<nat k]))"

lemma adjacent_inversions_step:
  "0 \<le> i \<Longrightarrow>
   adjacent_inversions lt d (i + 1)
     = adjacent_inversions lt d i + (if lt (d ! nat (i + 1)) (d ! nat i) then 1 else 0)"
proof -
  assume i: "0 \<le> i"
  have n: "nat (i + 1) = Suc (nat i)" using i by simp
  show ?thesis unfolding adjacent_inversions_def n by simp
qed

lemma adjacent_inversions_mono:
  "i \<le> j \<Longrightarrow> adjacent_inversions lt d i \<le> adjacent_inversions lt d j"
proof -
  assume ij: "i \<le> j"
  have "[0..<nat j] = [0..<nat i] @ [nat i..<nat j]"
    using ij by (metis le0 nat_mono upt_add_eq_append le_add_diff_inverse)
  then show ?thesis by (simp add: adjacent_inversions_def)
qed

lemma isNearlySorted_loop_count:
  "0 \<le> i \<Longrightarrow> i \<le> n - 1 \<Longrightarrow> inversions = adjacent_inversions lt d i \<Longrightarrow>
   inversions \<le> threshold \<Longrightarrow>
   isNearlySorted_loop lt d n threshold inversions i
     = (adjacent_inversions lt d (n - 1) \<le> threshold)"
proof (induction lt d n threshold inversions i rule: isNearlySorted_loop.induct)
  case (1 lt d n threshold inversions i)
  show ?case
  proof (cases "i < n - 1")
    case False
    then have "i = n - 1" using "1.prems" by simp
    moreover have "isNearlySorted_loop lt d n threshold inversions i = True"
      using False by (subst isNearlySorted_loop.simps) simp
    ultimately show ?thesis using "1.prems" by simp
  next
    case True
    show ?thesis
    proof (cases "lt (d ! nat (i + 1)) (d ! nat i)")
      case inv: True
      have step: "adjacent_inversions lt d (i + 1) = inversions + 1"
        using adjacent_inversions_step[of i lt d] "1.prems" inv by simp
      show ?thesis
      proof (cases "inversions + 1 > threshold")
        case over: True
        have "isNearlySorted_loop lt d n threshold inversions i = False"
          using True inv over by (subst isNearlySorted_loop.simps) simp
        moreover have "adjacent_inversions lt d (i + 1) \<le> adjacent_inversions lt d (n - 1)"
          using True by (intro adjacent_inversions_mono) simp
        ultimately show ?thesis using step over by simp
      next
        case under: False
        have "isNearlySorted_loop lt d n threshold inversions i
            = isNearlySorted_loop lt d n threshold (inversions + 1) (i + 1)"
          using True inv under by (subst isNearlySorted_loop.simps) simp
        also have "\<dots> = (adjacent_inversions lt d (n - 1) \<le> threshold)"
          using "1.IH"(1)[OF True inv under] "1.prems" True step under by simp
        finally show ?thesis .
      qed
    next
      case noinv: False
      have step: "adjacent_inversions lt d (i + 1) = inversions"
        using adjacent_inversions_step[of i lt d] "1.prems" noinv by simp
      have "isNearlySorted_loop lt d n threshold inversions i
          = isNearlySorted_loop lt d n threshold inversions (i + 1)"
        using True noinv by (subst isNearlySorted_loop.simps) simp
      also have "\<dots> = (adjacent_inversions lt d (n - 1) \<le> threshold)"
        using "1.IH"(2)[OF True noinv] "1.prems" True step by simp
      finally show ?thesis .
    qed
  qed
qed

lemma isNearlySorted_threshold:
  "1 < (n::int) \<Longrightarrow> (if n sdiv 10 < 1 then 1 else n sdiv 10) = max 1 (n div 10)"
  by (simp add: sdiv_nonneg_eq_div max_def)

lemma isNearlySorted_total:
  "isNearlySorted q
   = (pq_size q \<le> 1
      \<or> adjacent_inversions (pq_less q) (pq_data q) (pq_size q - 1) \<le> max 1 (pq_size q div 10))"
proof (cases "pq_size q \<le> 1")
  case True
  then show ?thesis by (simp add: isNearlySorted_def)
next
  case False
  then have n: "1 < pq_size q" by simp
  have "isNearlySorted q
      = isNearlySorted_loop (pq_less q) (pq_data q) (pq_size q) (max 1 (pq_size q div 10)) 0 0"
    using False isNearlySorted_threshold[OF n] by (simp add: isNearlySorted_def Let_def)
  also have "\<dots> = (adjacent_inversions (pq_less q) (pq_data q) (pq_size q - 1)
                    \<le> max 1 (pq_size q div 10))"
    using n by (intro isNearlySorted_loop_count) (simp_all add: adjacent_inversions_def)
  finally show ?thesis using False by simp
qed

text \<open>
  Claim C9. The test answers true exactly when the size is at most 1 or the running
  count of adjacent inversions (the count after each number \<open>k\<close> of scanned pairs, up to
  all \<open>size - 1\<close> pairs) never exceeds \<open>max 1 (size div 10)\<close>; since the count only
  grows, this is the same as the count over all pairs staying within the threshold.
\<close>

theorem isNearlySorted_iff_inversions_within_threshold:
  "(isNearlySorted q
      \<longleftrightarrow> (pq_size q \<le> 1
           \<or> (\<forall>k. 0 \<le> k \<and> k \<le> pq_size q - 1
                 \<longrightarrow> adjacent_inversions (pq_less q) (pq_data q) k \<le> max 1 (pq_size q div 10))))
   \<and> (isNearlySorted q
      \<longleftrightarrow> (pq_size q \<le> 1
           \<or> adjacent_inversions (pq_less q) (pq_data q) (pq_size q - 1)
               \<le> max 1 (pq_size q div 10)))"
proof (intro conjI)
  show total: "isNearlySorted q
      \<longleftrightarrow> (pq_size q \<le> 1
           \<or> adjacent_inversions (pq_less q) (pq_data q) (pq_size q - 1)
               \<le> max 1 (pq_size q div 10))"
    by (rule isNearlySorted_total)
  have "1 < pq_size q \<Longrightarrow>
      (\<forall>k. 0 \<le> k \<and> k \<le> pq_size q - 1
          \<longrightarrow> adjacent_inversions (pq_less q) (pq_data q) k \<le> max 1 (pq_size q div 10))
      = (adjacent_inversions (pq_less q) (pq_data q) (pq_size q - 1) \<le> max 1 (pq_size q div 10))"
  proof -
    assume n: "1 < pq_size q"
    show ?thesis
    proof
      assume "\<forall>k. 0 \<le> k \<and> k \<le> pq_size q - 1
          \<longrightarrow> adjacent_inversions (pq_less q) (pq_data q) k \<le> max 1 (pq_size q div 10)"
      then show "adjacent_inversions (pq_less q) (pq_data q) (pq_size q - 1)
          \<le> max 1 (pq_size q div 10)"
        using n by simp
    next
      assume a: "adjacent_inversions (pq_less q) (pq_data q) (pq_size q - 1)
          \<le> max 1 (pq_size q div 10)"
      show "\<forall>k. 0 \<le> k \<and> k \<le> pq_size q - 1
          \<longrightarrow> adjacent_inversions (pq_less q) (pq_data q) k \<le> max 1 (pq_size q div 10)"
      proof (intro allI impI)
        fix k assume "0 \<le> k \<and> k \<le> pq_size q - 1"
        then have "adjacent_inversions (pq_less q) (pq_data q) k
            \<le> adjacent_inversions (pq_less q) (pq_data q) (pq_size q - 1)"
          by (intro adjacent_inversions_mono) simp
        with a show "adjacent_inversions (pq_less q) (pq_data q) k \<le> max 1 (pq_size q div 10)"
          by simp
      qed
    qed
  qed
  with total show "isNearlySorted q
      \<longleftrightarrow> (pq_size q \<le> 1
           \<or> (\<forall>k. 0 \<le> k \<and> k \<le> pq_size q - 1
                 \<longrightarrow> adjacent_inversions (pq_less q) (pq_data q) k \<le> max 1 (pq_size q div 10)))"
    by (cases "pq_size q \<le> 1") auto
qed

theorem isNearlySorted_iff_inversions_within_threshold_witness:
  "isNearlySorted
     \<lparr>pq_data = [1, 2, 3, 5, 4, 6, 7, 8, 9, 10], pq_less = NewInts_less,
      pq_dataType = IntegerType, pq_size = 10\<rparr>
   \<and> adjacent_inversions NewInts_less [1, 2, 3, 5, 4, 6, 7, 8, 9, 10] 9 = 1
   \<and> \<not> isNearlySorted
     \<lparr>pq_data = [3, 2, 1, 0], pq_less = NewInts_less, pq_dataType = IntegerType, pq_size = 4\<rparr>
   \<and> adjacent_inversions NewInts_less [3, 2, 1, 0] 3 = 3"
proof -
  have a: "adjacent_inversions NewInts_less [1, 2, 3, 5, 4, 6, 7, 8, 9, 10] 9 = 1"
    by (simp add: adjacent_inversions_def NewInts_less_def upt_rec)
  have b: "adjacent_inversions NewInts_less [3, 2, 1, 0] 3 = 3"
    by (simp add: adjacent_inversions_def NewInts_less_def upt_rec)
  show ?thesis
    using isNearlySorted_iff_inversions_within_threshold[THEN conjunct2, of
        "\<lparr>pq_data = [1, 2, 3, 5, 4, 6, 7, 8, 9, 10], pq_less = NewInts_less,
          pq_dataType = IntegerType, pq_size = 10\<rparr>"]
      isNearlySorted_iff_inversions_within_threshold[THEN conjunct2, of
        "\<lparr>pq_data = [3, 2, 1, 0], pq_less = NewInts_less, pq_dataType = IntegerType,
          pq_size = 4\<rparr>"]
      a b
    by simp
qed

section \<open>Radix sort on numbers that are not positive\<close>

lemma getMaxInt_loop_bounded:
  "(\<forall>j. i \<le> j \<and> j < n \<longrightarrow> intOf ty (d ! nat j) \<le> mx) \<Longrightarrow> getMaxInt_loop ty d n i mx = mx"
proof (induction ty d n i mx rule: getMaxInt_loop.induct)
  case (1 ty d n i mx)
  show ?case
  proof (cases "i < n")
    case False
    then show ?thesis by (subst getMaxInt_loop.simps) simp
  next
    case True
    have le: "intOf ty (d ! nat i) \<le> mx" using "1.prems" True by simp
    have rest: "\<forall>j. i + 1 \<le> j \<and> j < n \<longrightarrow> intOf ty (d ! nat j) \<le> mx"
      using "1.prems" by simp
    show ?thesis
    proof (cases "kindOf ty (d ! nat i) = KInt \<or> kindOf ty (d ! nat i) = KInt64
            \<or> kindOf ty (d ! nat i) = KInt32")
      case k: True
      have "getMaxInt_loop ty d n i mx = getMaxInt_loop ty d n (i + 1) mx"
        using True k le by (subst getMaxInt_loop.simps) (simp add: Let_def)
      also have "\<dots> = mx"
        using "1.IH"(1)[OF True k refl] le rest by simp
      finally show ?thesis .
    next
      case k: False
      have "getMaxInt_loop ty d n i mx = getMaxInt_loop ty d n (i + 1) mx"
        using True k by (subst getMaxInt_loop.simps) simp
      also have "\<dots> = mx"
        using "1.IH"(2)[OF True k] rest by simp
      finally show ?thesis .
    qed
  qed
qed

lemma getMaxInt_nonpositive:
  "(\<forall>i. 0 \<le> i \<and> i < pq_size q \<longrightarrow> intOf ty (pq_data q ! nat i) \<le> 0) \<Longrightarrow> getMaxInt ty q = 0"
  using getMaxInt_loop_bounded[of 0 "pq_size q" ty "pq_data q" 0]
  by (simp add: getMaxInt_def)

text \<open>
  Claim C10. On a queue with the integer tag in which no live element has a positive
  value, \<^verbatim>\<open>SortWithStrategy(RadixStrategy)\<close> returns normally and the queue after the
  call is the queue before it (slice, size and all): the maximum that
  \<^verbatim>\<open>getMaxInt\<close> computes from 0 is 0, and \<^verbatim>\<open>radixSort\<close> returns before its loop.
\<close>

theorem radix_leaves_nonpositive_queue_unchanged:
  assumes "pq_dataType q = IntegerType"
    and "\<forall>i. 0 \<le> i \<and> i < pq_size q \<longrightarrow> intOf ty (pq_data q ! nat i) \<le> 0"
  shows "SortWithStrategy ty q RadixStrategy = Inr q \<and> getMaxInt ty q = 0"
  using assms getMaxInt_nonpositive[of q ty]
  by (simp add: SortWithStrategy_def radixSort_def Let_def)

theorem radix_leaves_nonpositive_queue_unchanged_witness:
  "SortWithStrategy intType
      \<lparr>pq_data = [- 3, - 1, - 4, - 7], pq_less = NewInts_less, pq_dataType = IntegerType,
       pq_size = 4\<rparr> RadixStrategy
     = Inr \<lparr>pq_data = [- 3, - 1, - 4, - 7], pq_less = NewInts_less, pq_dataType = IntegerType,
            pq_size = 4\<rparr>"
proof -
  let ?q = "\<lparr>pq_data = [- 3, - 1, - 4, - 7], pq_less = NewInts_less, pq_dataType = IntegerType,
             pq_size = 4\<rparr>"
  have h1: "pq_dataType ?q = IntegerType" by simp
  have h2: "\<forall>i. 0 \<le> i \<and> i < pq_size ?q \<longrightarrow> intOf intType (pq_data ?q ! nat i) \<le> 0"
  proof (intro allI impI)
    fix i :: int assume "0 \<le> i \<and> i < pq_size ?q"
    then have "i = 0 \<or> i = 1 \<or> i = 2 \<or> i = 3" by auto
    then show "intOf intType (pq_data ?q ! nat i) \<le> 0"
      by (auto simp: intType_def)
  qed
  show ?thesis
    using radix_leaves_nonpositive_queue_unchanged[OF h1 h2] by simp
qed

section \<open>Sort on integers: two inputs\<close>

text \<open>
  101 negative numbers in descending order, \<open>-20, -40, \<dots>, -2020\<close>, as
  \<^verbatim>\<open>NewInts\<close> receives them.
\<close>

definition descending_negatives :: "int list" where
  "descending_negatives = map (\<lambda>i. - 20 * int i - 20) [0..<101]"

text \<open>
  Claim C1 fails on this input. The queue has the integer tag and 101 elements, it
  is not nearly sorted and its range is 2000, so \<^verbatim>\<open>Sort\<close> chooses the radix
  strategy; \<^verbatim>\<open>getMaxInt\<close> starts from 0 and returns 0, \<^verbatim>\<open>radixSort\<close> returns at
  once, and \<^verbatim>\<open>ToSlice\<close> gives the input back, whose second element is less than
  its first.
\<close>

theorem Sort_leaves_descending_negatives_unsorted:
  "(case NewInts descending_negatives of
      Inl e \<Rightarrow> False
    | Inr q \<Rightarrow>
        chooseOptimalStrategy intType q = Inr RadixStrategy
        \<and> (case Sort intType q of
             Inl e \<Rightarrow> False
           | Inr q1 \<Rightarrow>
               ToSlice intType q1 = descending_negatives
               \<and> pq_less q1 (ToSlice intType q1 ! 1) (ToSlice intType q1 ! 0)))"
  by code_simp

text \<open>
  The element type \<^verbatim>\<open>uint\<close>: its kind is \<^verbatim>\<open>reflect.Uint\<close>, on which
  \<^verbatim>\<open>reflect.Value.Int\<close> panics (so \<open>intOf\<close> is never read), and an \<^verbatim>\<open>int\<close> does
  not convert to it. The input is \<open>101, 100, \<dots>, 1\<close>.
\<close>

definition uintType :: "nat GoType" where
  "uintType = \<lparr>zeroT = 0, kindOf = (\<lambda>x. KUint), intOf = (\<lambda>x. int x), ofInt = (\<lambda>n. None)\<rparr>"

definition descending_uints :: "nat list" where
  "descending_uints = map (\<lambda>i. 101 - i) [0..<101]"

text \<open>
  Claim C3 fails on this input. \<^verbatim>\<open>inferDataType\<close> gives the integer tag to the
  unsigned kinds; with more than 100 elements that are not nearly sorted,
  \<^verbatim>\<open>chooseOptimalStrategy\<close> calls \<^verbatim>\<open>hasSmallRange\<close>, and
  \<^verbatim>\<open>getMinMaxInt\<close> calls \<^verbatim>\<open>reflect.Value.Int\<close> on the first element, which
  panics: no strategy is returned, and \<^verbatim>\<open>Sort\<close> panics with it.
\<close>

theorem chooseOptimalStrategy_panics_on_unsigned:
  "(case New uintType descending_uints (<) of
      Inl e \<Rightarrow> False
    | Inr q \<Rightarrow>
        pq_dataType q = IntegerType \<and> pq_size q = 101 \<and> \<not> isNearlySorted q
        \<and> chooseOptimalStrategy uintType q = Inl PanicValueInt
        \<and> (case Sort uintType q of Inl e \<Rightarrow> e = PanicValueInt | Inr q1 \<Rightarrow> False))"
  by code_simp

section \<open>Radix and Counting chosen by the caller\<close>

lemma quickSortRange_empty: "\<not> low < high \<Longrightarrow> quickSortRange lt d low high = d"
  by (subst quickSortRange.simps) simp

lemma quickSort_small: "pq_size q \<le> 1 \<Longrightarrow> quickSort q = q"
  by (simp add: quickSort_def quickSortRange_empty)

text \<open>
  Claim C5. With a tag other than integer, \<^verbatim>\<open>SortWithStrategy\<close> with the radix
  or the counting strategy returns normally and its result is the result of
  \<^verbatim>\<open>quickSort\<close>. With the integer tag and the counting strategy, when
  \<^verbatim>\<open>getMinMaxInt\<close> returns \<open>(mn, mx)\<close> and the difference \<^verbatim>\<open>maxVal-minVal\<close> that
  \<^verbatim>\<open>countingSort\<close> computes (a 64-bit difference) exceeds 10000, the result is again
  the result of \<^verbatim>\<open>quickSort\<close>.
\<close>

theorem explicit_radix_counting_fall_back_to_quickSort:
  "(pq_dataType q \<noteq> IntegerType \<longrightarrow>
      SortWithStrategy ty q RadixStrategy = Inr (quickSort q)
      \<and> SortWithStrategy ty q CountingStrategy = Inr (quickSort q))
   \<and> (pq_dataType q = IntegerType \<longrightarrow> getMinMaxInt ty q = Inr (mn, mx) \<longrightarrow>
        wrap64 (mx - mn) > 10000 \<longrightarrow>
        SortWithStrategy ty q CountingStrategy = Inr (quickSort q))"
proof (cases "pq_size q \<le> 1")
  case True
  then show ?thesis by (simp add: SortWithStrategy_def quickSort_small)
next
  case False
  then show ?thesis by (simp add: SortWithStrategy_def countingSort_def Let_def)
qed

text \<open>
  A queue of strings compared by length (a caller's comparator), with the text tag,
  and a queue of integers whose range is 19999.
\<close>

definition stringType :: "string GoType" where
  "stringType = \<lparr>zeroT = [], kindOf = (\<lambda>x. KString), intOf = (\<lambda>x. 0), ofInt = (\<lambda>n. None)\<rparr>"

definition shorter :: "string \<Rightarrow> string \<Rightarrow> bool" where
  "shorter a b = (length a < length b)"

theorem explicit_radix_counting_fall_back_to_quickSort_witness:
  "SortWithStrategy stringType
      \<lparr>pq_data = [''ccc'', ''a'', ''bb''], pq_less = shorter, pq_dataType = StringType,
       pq_size = 3\<rparr> RadixStrategy
     = Inr (quickSort \<lparr>pq_data = [''ccc'', ''a'', ''bb''], pq_less = shorter,
                       pq_dataType = StringType, pq_size = 3\<rparr>)
   \<and> pq_data (quickSort \<lparr>pq_data = [''ccc'', ''a'', ''bb''], pq_less = shorter,
                          pq_dataType = StringType, pq_size = 3\<rparr>) = [''a'', ''bb'', ''ccc'']
   \<and> getMinMaxInt intType
        \<lparr>pq_data = [20000, 1, 5], pq_less = NewInts_less, pq_dataType = IntegerType,
         pq_size = 3\<rparr> = Inr (1, 20000)
   \<and> wrap64 (20000 - 1) > 10000
   \<and> SortWithStrategy intType
        \<lparr>pq_data = [20000, 1, 5], pq_less = NewInts_less, pq_dataType = IntegerType,
         pq_size = 3\<rparr> CountingStrategy
     = Inr (quickSort \<lparr>pq_data = [20000, 1, 5], pq_less = NewInts_less,
                       pq_dataType = IntegerType, pq_size = 3\<rparr>)
   \<and> pq_data (quickSort \<lparr>pq_data = [20000, 1, 5], pq_less = NewInts_less,
                          pq_dataType = IntegerType, pq_size = 3\<rparr>) = [1, 5, 20000]"
proof -
  let ?s = "\<lparr>pq_data = [''ccc'', ''a'', ''bb''], pq_less = shorter, pq_dataType = StringType,
             pq_size = 3\<rparr>"
  let ?q = "\<lparr>pq_data = [20000, 1, 5], pq_less = NewInts_less, pq_dataType = IntegerType,
             pq_size = 3\<rparr>"
  have mm: "getMinMaxInt intType ?q = Inr (1, 20000)" by code_simp
  have w: "wrap64 (20000 - 1) > 10000" by (simp add: wrap64_def)
  have a: "SortWithStrategy stringType ?s RadixStrategy = Inr (quickSort ?s)"
    using explicit_radix_counting_fall_back_to_quickSort[of ?s stringType] by simp
  have b: "SortWithStrategy intType ?q CountingStrategy = Inr (quickSort ?q)"
    using explicit_radix_counting_fall_back_to_quickSort[of ?q intType 1 20000] mm w by simp
  have c: "pq_data (quickSort ?s) = [''a'', ''bb'', ''ccc'']" by code_simp
  have e: "pq_data (quickSort ?q) = [1, 5, 20000]" by code_simp
  show ?thesis using mm w a b c e by simp
qed

end
